theory Spec2Isabelle
  imports Main
begin

section \<open>The lexical analyzer of \<^verbatim>\<open>tokenization.h\<close>\<close>

text \<open>
  A shallow embedding of the class \<^verbatim>\<open>LexicalAnalyzer\<close>: the token types, the keyword
  table, the character classes, the sub-scans \<^verbatim>\<open>getNextWord\<close> and \<^verbatim>\<open>getNextNumber\<close>
  and the main loop of \<^verbatim>\<open>tokenize\<close>. A \<^verbatim>\<open>std::string\<close> is a \<open>string\<close>, the cursor
  \<^verbatim>\<open>position\<close> (a \<^verbatim>\<open>size_t\<close>) is a \<open>nat\<close> with the wrap-around of 64-bit arithmetic
  written out where the cursor is not known to be inside the input.
\<close>

subsection \<open>Tokens\<close>

datatype TokenType = KEYWORD | IDENTIFIER | LITERAL | OPERATOR | SEPARATOR | UNKNOWN

datatype Token = Token (ttype: TokenType) (tvalue: string)

subsection \<open>Characters\<close>

definition dquote :: char where
  "dquote = CHR 0x22"

definition backslash :: char where
  "backslash = CHR 0x5C"

definition newline :: char where
  "newline = CHR 0x0A"

definition NUL :: char where
  "NUL = CHR 0x00"

definition isWhitespace :: "char \<Rightarrow> bool" where
  "isWhitespace c \<longleftrightarrow> c = CHR '' '' \<or> c = CHR 0x09 \<or> c = CHR 0x0A \<or> c = CHR 0x0D"

definition isAlpha :: "char \<Rightarrow> bool" where
  "isAlpha c \<longleftrightarrow>
     ((of_char (CHR ''a'') :: nat) \<le> of_char c \<and> (of_char c :: nat) \<le> of_char (CHR ''z''))
     \<or> ((of_char (CHR ''A'') :: nat) \<le> of_char c \<and> (of_char c :: nat) \<le> of_char (CHR ''Z''))"

definition isDigit :: "char \<Rightarrow> bool" where
  "isDigit c \<longleftrightarrow>
     (of_char (CHR ''0'') :: nat) \<le> of_char c \<and> (of_char c :: nat) \<le> of_char (CHR ''9'')"

definition isAlphaNumeric :: "char \<Rightarrow> bool" where
  "isAlphaNumeric c \<longleftrightarrow> isAlpha c \<or> isDigit c"

subsection \<open>The keyword table\<close>

definition initKeywords :: "(string \<rightharpoonup> TokenType) \<Rightarrow> (string \<rightharpoonup> TokenType)" where
  "initKeywords m = m
     (''int'' \<mapsto> KEYWORD, ''float'' \<mapsto> KEYWORD, ''if'' \<mapsto> KEYWORD, ''else'' \<mapsto> KEYWORD,
      ''while'' \<mapsto> KEYWORD, ''return'' \<mapsto> KEYWORD, ''string'' \<mapsto> KEYWORD, ''do'' \<mapsto> KEYWORD,
      ''void'' \<mapsto> KEYWORD, ''cout'' \<mapsto> KEYWORD, ''endl'' \<mapsto> KEYWORD, ''for'' \<mapsto> KEYWORD,
      ''#include'' \<mapsto> KEYWORD, ''using'' \<mapsto> KEYWORD, ''namespace'' \<mapsto> KEYWORD,
      ''std'' \<mapsto> KEYWORD, ''iostream'' \<mapsto> KEYWORD, ''fstream'' \<mapsto> KEYWORD,
      ''vector'' \<mapsto> KEYWORD)"

text \<open>The constructor fills an empty map once; nothing writes to it afterwards.\<close>

definition keywords_map :: "string \<rightharpoonup> TokenType" where
  "keywords_map = initKeywords Map.empty"

subsection \<open>Reading the input\<close>

text \<open>
  \<^verbatim>\<open>input[i]\<close> on a \<^verbatim>\<open>std::string\<close> is a character of the string for \<open>i < size()\<close>,
  the terminating null character for \<open>i = size()\<close>, and undefined beyond. (The value at
  \<open>size()\<close> is defined since C++11, the language level the source needs for
  \<^verbatim>\<open>enum class\<close> and \<^verbatim>\<open>emplace_back\<close>.)
  \<^verbatim>\<open>substr(pos, n)\<close> throws \<^verbatim>\<open>std::out_of_range\<close> for \<open>pos > size()\<close>. Both failures
  are the error \<open>OutOfRange\<close>.

  The reads that the source guards with \<^verbatim>\<open>position < input.length()\<close> in the same
  condition are written \<open>input ! position\<close> under that guard. The look-ahead reads
  \<^verbatim>\<open>input[position+1]\<close> have no guard in the source; they go through a reader, a
  parameter of the model. \<open>at_cpp\<close> is the reader of the C++ library. \<open>at_checked\<close>
  is list indexing as an option: it refuses every index that is not the index of a
  character of the input.
\<close>

datatype error = OutOfRange

type_synonym reader = "string \<Rightarrow> nat \<Rightarrow> error + char"

definition at_cpp :: reader where
  "at_cpp inp i =
     (if i < length inp then Inr (inp ! i)
      else if i = length inp then Inr NUL
      else Inl OutOfRange)"

definition at_checked :: reader where
  "at_checked inp i = (if i < length inp then Inr (inp ! i) else Inl OutOfRange)"

definition substr :: "string \<Rightarrow> nat \<Rightarrow> nat \<Rightarrow> error + string" where
  "substr inp pos n = (if pos > length inp then Inl OutOfRange else Inr (take n (drop pos inp)))"

definition bind :: "error + 'a \<Rightarrow> ('a \<Rightarrow> error + 'b) \<Rightarrow> error + 'b" where
  "bind r f = (case r of Inl e \<Rightarrow> Inl e | Inr x \<Rightarrow> f x)"

subsection \<open>Arithmetic of \<^verbatim>\<open>size_t\<close>\<close>

definition size_t :: "nat \<Rightarrow> nat" where
  "size_t n = n mod 2 ^ 64"

definition decr :: "nat \<Rightarrow> nat" where
  "decr p = (if p = 0 then 2 ^ 64 - 1 else p - 1)"

subsection \<open>The scanner's state\<close>

text \<open>
  The members of the class (\<open>input\<close>, \<open>position\<close>, \<open>cleanedInput\<close>) and the two locals
  of \<^verbatim>\<open>tokenize\<close> that live across iterations of its loop.
\<close>

record LexicalAnalyzer =
  input :: string
  position :: nat
  cleanedInput :: string
  tokens :: "Token list"
  inMultiLineComment :: bool

definition LexicalAnalyzer :: "string \<Rightarrow> LexicalAnalyzer" where
  "LexicalAnalyzer source =
     \<lparr>input = source, position = 0, cleanedInput = [], tokens = [], inMultiLineComment = False\<rparr>"

definition emplace_back :: "TokenType \<Rightarrow> string \<Rightarrow> LexicalAnalyzer \<Rightarrow> LexicalAnalyzer" where
  "emplace_back t v s = s\<lparr>tokens := tokens s @ [Token t v]\<rparr>"

definition append_cleaned :: "string \<Rightarrow> LexicalAnalyzer \<Rightarrow> LexicalAnalyzer" where
  "append_cleaned v s = s\<lparr>cleanedInput := cleanedInput s @ v\<rparr>"

subsection \<open>\<^verbatim>\<open>getNextWord\<close>\<close>

text \<open>The \<^verbatim>\<open>while\<close> loop of lines 99 to 102: every step is under \<open>position < length\<close>.\<close>

function scanWord :: "string \<Rightarrow> nat \<Rightarrow> nat" where
  "scanWord inp p =
     (if p < length inp \<and> isAlphaNumeric (inp ! p) \<and> inp ! p \<noteq> CHR ''_''
      then scanWord inp (p + 1) else p)"
  by pat_completeness auto
termination
  by (relation "measure (\<lambda>(inp, p). length inp - p)") auto

declare scanWord.simps [simp del]

text \<open>
  Lines 104 to 112. \<^verbatim>\<open>position == '_'\<close> compares the cursor with the character code 95;
  only then is \<^verbatim>\<open>input[position+1]\<close> read. \<^verbatim>\<open>position--\<close> wraps at 0.
\<close>

definition getNextWord :: "reader \<Rightarrow> LexicalAnalyzer \<Rightarrow> error + (string \<times> LexicalAnalyzer)" where
  "getNextWord rd s =
     (let start = position s;
          p = scanWord (input s) (position s)
      in if p < length (input s) \<and> \<not> isAlphaNumeric (input s ! p) then
           bind (if p = of_char (CHR ''_'')
                 then bind (rd (input s) (p + 1))
                        (\<lambda>c. Inr (if isAlphaNumeric c then p + 1 else p))
                 else Inr p)
             (\<lambda>p'. bind (substr (input s) start (p' - start))
               (\<lambda>result. Inr (result, s\<lparr>position := decr p'\<rparr>)))
         else Inr ([], s\<lparr>position := p\<rparr>))"

subsection \<open>\<^verbatim>\<open>getNextNumber\<close>\<close>

function scanNumber :: "string \<Rightarrow> nat \<Rightarrow> bool \<Rightarrow> nat" where
  "scanNumber inp p hasDecimal =
     (if p < length inp \<and> (isDigit (inp ! p) \<or> inp ! p = CHR ''.'')
      then (if inp ! p = CHR ''.''
            then (if hasDecimal then p else scanNumber inp (p + 1) True)
            else scanNumber inp (p + 1) hasDecimal)
      else p)"
  by pat_completeness auto
termination
  by (relation "measure (\<lambda>(inp, p, d). length inp - p)") auto

declare scanNumber.simps [simp del]

definition getNextNumber :: "LexicalAnalyzer \<Rightarrow> error + (string \<times> LexicalAnalyzer)" where
  "getNextNumber s =
     (let start = position s;
          p = scanNumber (input s) (position s) False
      in bind (substr (input s) start (p - start))
           (\<lambda>result. Inr (result, s\<lparr>position := p\<rparr>)))"

subsection \<open>The loops inside \<^verbatim>\<open>tokenize\<close>\<close>

text \<open>Lines 174 to 176: a single-line comment is skipped up to the next newline.\<close>

function skipLine :: "string \<Rightarrow> nat \<Rightarrow> nat" where
  "skipLine inp p =
     (if p < length inp \<and> inp ! p \<noteq> newline then skipLine inp (p + 1) else p)"
  by pat_completeness auto
termination
  by (relation "measure (\<lambda>(inp, p). length inp - p)") auto

declare skipLine.simps [simp del]

text \<open>Lines 203 to 206: a word that starts with an underscore.\<close>

function scanUnderscoreWord :: "string \<Rightarrow> nat \<Rightarrow> string \<Rightarrow> nat \<times> string" where
  "scanUnderscoreWord inp p word =
     (if p < length inp \<and> (isAlphaNumeric (inp ! p) \<or> inp ! p = CHR ''_'')
      then scanUnderscoreWord inp (p + 1) (word @ [inp ! p]) else (p, word))"
  by pat_completeness auto
termination
  by (relation "measure (\<lambda>(inp, p, w). length inp - p)") auto

declare scanUnderscoreWord.simps [simp del]

text \<open>Lines 268 to 280: the body of a string literal, after the opening quote.\<close>

function scanString :: "string \<Rightarrow> nat \<Rightarrow> bool \<Rightarrow> string \<Rightarrow> nat \<times> string" where
  "scanString inp p inEscapedQuote literalString =
     (if p < length inp then
        (if inp ! p = dquote \<and> \<not> inEscapedQuote then (p + 1, literalString)
         else if inp ! p = backslash then scanString inp (p + 1) True literalString
         else scanString inp (p + 1) False (literalString @ [inp ! p]))
      else (p, literalString))"
  by pat_completeness auto
termination
  by (relation "measure (\<lambda>(inp, p, e, l). length inp - p)") auto

declare scanString.simps [simp del]

subsection \<open>One iteration of the loop of \<^verbatim>\<open>tokenize\<close>\<close>

text \<open>
  \<^verbatim>\<open>currentChar == c1 && input[position+1] == c2\<close>: the second operand, the
  unguarded read, is evaluated only when the first holds.
\<close>

definition lookahead :: "reader \<Rightarrow> LexicalAnalyzer \<Rightarrow> char \<Rightarrow> char \<Rightarrow> char \<Rightarrow> error + bool" where
  "lookahead rd s currentChar c1 c2 =
     (if currentChar = c1
      then bind (rd (input s) (size_t (position s + 1))) (\<lambda>c. Inr (c = c2))
      else Inr False)"

text \<open>Lines 160 to 164: the preprocessor directive.\<close>

definition directive :: "reader \<Rightarrow> char \<Rightarrow> LexicalAnalyzer \<Rightarrow> error + LexicalAnalyzer" where
  "directive rd currentChar s =
     (if currentChar = CHR ''#''
      then bind (getNextWord rd s)
             (\<lambda>(directive, s'). Inr (append_cleaned directive (emplace_back KEYWORD directive s')))
      else Inr s)"

text \<open>Lines 189 to 293: the chain of branches that classifies the current character.\<close>

definition classify :: "reader \<Rightarrow> char \<Rightarrow> LexicalAnalyzer \<Rightarrow> error + LexicalAnalyzer" where
  "classify rd currentChar s =
     (if isAlpha currentChar then
        bind (getNextWord rd s)
          (\<lambda>(word, s'). Inr (append_cleaned word
             (if keywords_map word \<noteq> None then emplace_back KEYWORD word s'
              else emplace_back IDENTIFIER word s')))
      else if isAlpha currentChar \<or> currentChar = CHR ''_'' then
        (let (p, word) = scanUnderscoreWord (input s) (position s) []
         in Inr (append_cleaned word (emplace_back IDENTIFIER word (s\<lparr>position := p\<rparr>))))
      else if isDigit currentChar then
        bind (getNextNumber s)
          (\<lambda>(number, s'). Inr (append_cleaned number
             (if CHR ''.'' \<in> set number then emplace_back LITERAL number s'
              else emplace_back LITERAL number s')))
      else bind (lookahead rd s currentChar (CHR ''<'') (CHR ''<'')) (\<lambda>shl.
        if shl then
          Inr ((append_cleaned ''<<'' (emplace_back OPERATOR ''<<'' s))
                 \<lparr>position := size_t (position s + 2)\<rparr>)
        else bind (lookahead rd s currentChar (CHR ''>'') (CHR ''>'')) (\<lambda>shr.
          if shr then
            Inr ((append_cleaned ''>>'' (emplace_back OPERATOR ''>>'' s))
                   \<lparr>position := size_t (position s + 2)\<rparr>)
          else if currentChar = CHR ''+'' \<or> currentChar = CHR ''-'' \<or> currentChar = CHR ''*''
                  \<or> currentChar = CHR ''='' \<or> currentChar = CHR ''<'' \<or> currentChar = CHR ''>''
                  \<or> currentChar = CHR ''^'' \<or> currentChar = CHR ''/'' then
            Inr ((append_cleaned [currentChar] (emplace_back OPERATOR [currentChar] s))
                   \<lparr>position := size_t (position s + 1)\<rparr>)
          else if currentChar = CHR ''('' \<or> currentChar = CHR '')'' \<or> currentChar = CHR ''{''
                  \<or> currentChar = CHR ''}'' \<or> currentChar = CHR '','' \<or> currentChar = CHR '';'' then
            Inr ((append_cleaned [currentChar] (emplace_back SEPARATOR [currentChar] s))
                   \<lparr>position := size_t (position s + 1)\<rparr>)
          else if currentChar = dquote then
            (let (p, literalString) = scanString (input s) (size_t (position s + 1)) False []
             in Inr (append_cleaned (dquote # literalString @ [dquote])
                  (if literalString \<noteq> [] then emplace_back LITERAL literalString (s\<lparr>position := p\<rparr>)
                   else s\<lparr>position := p\<rparr>)))
          else
            Inr ((append_cleaned [currentChar] (emplace_back UNKNOWN [currentChar] s))
                   \<lparr>position := size_t (position s + 1)\<rparr>))))"

text \<open>
  Lines 180 to 295: the end of a multi-line comment, then, outside a comment, the
  classification and the unconditional \<^verbatim>\<open>position++\<close> of line 294. Inside a comment
  nothing else happens: the state is returned as it is.
\<close>

definition comment_end :: "reader \<Rightarrow> char \<Rightarrow> LexicalAnalyzer \<Rightarrow> error + LexicalAnalyzer" where
  "comment_end rd currentChar s =
     bind (if inMultiLineComment s
           then lookahead rd s currentChar (CHR ''*'') (CHR ''/'') else Inr False)
       (\<lambda>closing.
          let s' = (if closing
                    then s\<lparr>inMultiLineComment := False, position := size_t (position s + 2)\<rparr>
                    else s)
          in if \<not> inMultiLineComment s'
             then bind (classify rd currentChar s')
                    (\<lambda>s''. Inr (s''\<lparr>position := size_t (position s'' + 1)\<rparr>))
             else Inr s')"

text \<open>
  Lines 151 to 295, under the loop's guard \<^verbatim>\<open>position < input.length()\<close>. The two
  \<^verbatim>\<open>continue\<close> statements (whitespace, single-line comment) return at once.
\<close>

definition loop_body :: "reader \<Rightarrow> LexicalAnalyzer \<Rightarrow> error + LexicalAnalyzer" where
  "loop_body rd s =
     (let currentChar = input s ! position s
      in if isWhitespace currentChar then Inr (s\<lparr>position := size_t (position s + 1)\<rparr>)
         else
           bind (directive rd currentChar s) (\<lambda>s1.
           bind (lookahead rd s1 currentChar (CHR ''/'') (CHR ''*'')) (\<lambda>opening.
             if opening then
               comment_end rd currentChar
                 (s1\<lparr>inMultiLineComment := True, position := size_t (position s1 + 2)\<rparr>)
             else bind (lookahead rd s1 currentChar (CHR ''/'') (CHR ''/'')) (\<lambda>line.
               if line then Inr (s1\<lparr>position := skipLine (input s1) (position s1)\<rparr>)
               else comment_end rd currentChar s1))))"

subsection \<open>\<^verbatim>\<open>tokenize\<close>\<close>

text \<open>
  The \<^verbatim>\<open>while\<close> loop of line 150 has no bound that the source makes evident, so it is a
  partial function: \<open>None\<close> is a run that never returns, \<open>Some (Inl e)\<close> a run that
  fails, \<open>Some (Inr s)\<close> a run that returns in state \<open>s\<close>.
\<close>

partial_function (option) tokenize_loop ::
  "reader \<Rightarrow> LexicalAnalyzer \<Rightarrow> (error + LexicalAnalyzer) option" where
  "tokenize_loop rd s =
     (if position s < length (input s)
      then (case loop_body rd s of Inl e \<Rightarrow> Some (Inl e) | Inr s' \<Rightarrow> tokenize_loop rd s')
      else Some (Inr s))"

text \<open>
  A scanner is constructed on the source text and run once. The caller sees the token
  vector that \<^verbatim>\<open>tokenize\<close> returns and, through \<^verbatim>\<open>printCleanedInput\<close>, the cleaned text.
\<close>

definition tokenize :: "reader \<Rightarrow> string \<Rightarrow> (error + Token list \<times> string) option" where
  "tokenize rd source =
     map_option (map_sum id (\<lambda>s. (tokens s, cleanedInput s)))
       (tokenize_loop rd (LexicalAnalyzer source))"

subsection \<open>Tokens and cleaned text in step\<close>

text \<open>
  \<open>lockstep s s'\<close>: from \<open>s\<close> to \<open>s'\<close> the input is the same, tokens were only appended,
  and the cleaned text grew by exactly the lexemes of the new tokens, in order.
\<close>

definition lockstep :: "LexicalAnalyzer \<Rightarrow> LexicalAnalyzer \<Rightarrow> bool" where
  "lockstep s s' \<longleftrightarrow>
     input s' = input s
     \<and> (\<exists>new. tokens s' = tokens s @ new
                \<and> cleanedInput s' = cleanedInput s @ concat (map tvalue new))"

section \<open>Properties\<close>

subsection \<open>Unfolding the model on a concrete input\<close>

lemmas char_defs = dquote_def backslash_def newline_def NUL_def isWhitespace_def isAlpha_def
  isDigit_def isAlphaNumeric_def

lemmas body_defs = loop_body_def comment_end_def classify_def directive_def lookahead_def
  getNextWord_def getNextNumber_def emplace_back_def append_cleaned_def bind_def substr_def
  size_t_def decr_def Let_def keywords_map_def initKeywords_def

lemmas scan_simps = scanWord.simps scanNumber.simps skipLine.simps scanUnderscoreWord.simps
  scanString.simps

lemmas run_defs = tokenize_def LexicalAnalyzer_def tokenize_loop.simps body_defs scan_simps

subsection \<open>Results and cursor arithmetic\<close>

lemma bind_Inr: "bind (Inr x) f = f x"
  by (simp add: bind_def)

lemma bind_eq_Inr: "bind r f = Inr y \<longleftrightarrow> (\<exists>x. r = Inr x \<and> f x = Inr y)"
  by (cases r) (simp_all add: bind_def)

lemma size_t_le: "size_t n \<le> n"
  by (simp add: size_t_def)

lemma size_t_small: "n < 2 ^ 64 \<Longrightarrow> size_t n = n"
  by (simp add: size_t_def)

subsection \<open>A state that an iteration leaves unchanged\<close>

text \<open>
  If an iteration under the loop's guard returns the very state it started from, every
  later iteration does the same and the loop never returns.
\<close>

lemma stuck_never_returns:
  assumes "position s < length (input s)" and "loop_body rd s = Inr s"
  shows "tokenize_loop rd s = None"
proof -
  have "\<not> (rd' = rd \<and> s' = s)" if run: "tokenize_loop rd' s' = Some y" for rd' s' y
  proof (rule tokenize_loop.raw_induct
      [where P = "\<lambda>rd' s' y. \<not> (rd' = rd \<and> s' = s)", OF _ run])
    fix f rd' s' y
    assume IH: "\<And>r t y. f r t = Some y \<Longrightarrow> \<not> (r = rd \<and> t = s)"
      and step: "(if position s' < length (input s')
                  then case loop_body rd' s' of Inl e \<Rightarrow> Some (Inl e) | Inr t \<Rightarrow> f rd' t
                  else Some (Inr s')) = Some y"
    show "\<not> (rd' = rd \<and> s' = s)"
    proof
      assume "rd' = rd \<and> s' = s"
      with step assms have "f rd s = Some y" by simp
      with IH show False by blast
    qed
  qed
  then show ?thesis by (cases "tokenize_loop rd s") auto
qed

subsection \<open>Rules for the loop\<close>

text \<open>If no iteration under the guard fails, the loop does not fail.\<close>

lemma tokenize_loop_no_error:
  assumes step: "\<And>u e. position u < length (input u) \<Longrightarrow> loop_body rd u \<noteq> Inl e"
  shows "tokenize_loop rd s \<noteq> Some (Inl e)"
proof
  assume run: "tokenize_loop rd s = Some (Inl e)"
  have "rd' = rd \<longrightarrow> y \<noteq> Inl e" if r: "tokenize_loop rd' s' = Some y" for rd' s' y
  proof (rule tokenize_loop.raw_induct
      [where P = "\<lambda>rd' s' y. rd' = rd \<longrightarrow> y \<noteq> Inl e", OF _ r])
    fix f rd' s' y
    assume IH: "\<And>r t y. f r t = Some y \<Longrightarrow> r = rd \<longrightarrow> y \<noteq> Inl e"
      and unfolded: "(if position s' < length (input s')
                  then case loop_body rd' s' of Inl e \<Rightarrow> Some (Inl e) | Inr t \<Rightarrow> f rd' t
                  else Some (Inr s')) = Some y"
    show "rd' = rd \<longrightarrow> y \<noteq> Inl e"
    proof
      assume eq: "rd' = rd"
      show "y \<noteq> Inl e"
      proof (cases "position s' < length (input s')")
        case False
        with unfolded show ?thesis by auto
      next
        case True
        then obtain t where t: "loop_body rd s' = Inr t"
          using step [of s'] by (cases "loop_body rd s'") auto
        with True unfolded eq have "f rd t = Some y" by simp
        with IH show ?thesis by blast
      qed
    qed
  qed
  with run show False by blast
qed

text \<open>A property that every iteration preserves holds in the state the loop returns.\<close>

lemma tokenize_loop_invariant:
  assumes run: "tokenize_loop rd s = Some (Inr t)" and init: "I s"
    and step: "\<And>u v. I u \<Longrightarrow> position u < length (input u) \<Longrightarrow> loop_body rd u = Inr v \<Longrightarrow> I v"
  shows "I t"
proof -
  have "rd' = rd \<longrightarrow> I s' \<longrightarrow> (\<forall>t. y = Inr t \<longrightarrow> I t)"
    if r: "tokenize_loop rd' s' = Some y" for rd' s' y
  proof (rule tokenize_loop.raw_induct
      [where P = "\<lambda>rd' s' y. rd' = rd \<longrightarrow> I s' \<longrightarrow> (\<forall>t. y = Inr t \<longrightarrow> I t)", OF _ r])
    fix f rd' s' y
    assume IH: "\<And>r u y. f r u = Some y \<Longrightarrow> r = rd \<longrightarrow> I u \<longrightarrow> (\<forall>t. y = Inr t \<longrightarrow> I t)"
      and unfolded: "(if position s' < length (input s')
                  then case loop_body rd' s' of Inl e \<Rightarrow> Some (Inl e) | Inr t \<Rightarrow> f rd' t
                  else Some (Inr s')) = Some y"
    show "rd' = rd \<longrightarrow> I s' \<longrightarrow> (\<forall>t. y = Inr t \<longrightarrow> I t)"
    proof (intro impI allI)
      fix t
      assume eq: "rd' = rd" and inv: "I s'" and y: "y = Inr t"
      show "I t"
      proof (cases "position s' < length (input s')")
        case False
        with unfolded y inv show ?thesis by auto
      next
        case True
        show ?thesis
        proof (cases "loop_body rd s'")
          case (Inl e)
          with True unfolded eq y show ?thesis by simp
        next
          case (Inr v)
          with True unfolded eq have "f rd v = Some y" by simp
          moreover have "I v" using step [OF inv True Inr] .
          ultimately show ?thesis using IH y by blast
        qed
      qed
    qed
  qed
  with run init show ?thesis by blast
qed



subsection \<open>Termination\<close>

text \<open>
  C1. The claim: for every input \<^verbatim>\<open>tokenize\<close> terminates and returns a result, and the
  lexemes of the emitted tokens are together no longer than the input.

  The source does not terminate on the input \<^verbatim>\<open>/*a*/\<close>. The first iteration opens the
  comment and moves the cursor to the \<^verbatim>\<open>a\<close>. From there no statement of the loop body
  applies: \<^verbatim>\<open>a\<close> is not whitespace, starts no comment and ends none, and the
  classification (with the \<^verbatim>\<open>position++\<close> of line 294) is skipped inside a comment. The
  iteration returns the state it started from, so the loop runs forever.
\<close>

theorem tokenize_comment_never_returns:
  "tokenize at_cpp ''/*a*/'' = None"
proof -
  let ?s = "\<lparr>input = ''/*a*/'', position = 2, cleanedInput = [], tokens = [],
             inMultiLineComment = True\<rparr>"
  have first: "loop_body at_cpp (LexicalAnalyzer ''/*a*/'') = Inr ?s"
    by (simp add: LexicalAnalyzer_def body_defs at_cpp_def char_defs)
  have again: "loop_body at_cpp ?s = Inr ?s"
    by (simp add: body_defs at_cpp_def char_defs)
  have "tokenize_loop at_cpp ?s = None"
    by (rule stuck_never_returns [OF _ again]) simp
  moreover have "tokenize_loop at_cpp (LexicalAnalyzer ''/*a*/'') = tokenize_loop at_cpp ?s"
    by (subst tokenize_loop.simps) (simp add: first, simp add: LexicalAnalyzer_def)
  ultimately show ?thesis by (simp add: tokenize_def)
qed

subsection \<open>Reads of the input\<close>

lemma getNextWord_at_cpp:
  assumes "position s \<le> length (input s)"
  shows "\<exists>w s'. getNextWord at_cpp s = Inr (w, s')"
  using assms by (simp add: getNextWord_def Let_def bind_def at_cpp_def substr_def)

lemma getNextNumber_returns:
  assumes "position s \<le> length (input s)"
  shows "\<exists>w s'. getNextNumber s = Inr (w, s')"
  using assms by (simp add: getNextNumber_def Let_def bind_def substr_def)

lemma lookahead_at_cpp:
  assumes "c = c1 \<Longrightarrow> position s < length (input s)"
  shows "\<exists>b. lookahead at_cpp s c c1 c2 = Inr b"
proof (cases "c = c1")
  case True
  with assms have "size_t (position s + 1) \<le> length (input s)"
    using size_t_le [of "position s + 1"] by simp
  with True show ?thesis by (simp add: lookahead_def bind_def at_cpp_def)
next
  case False
  then show ?thesis by (auto simp add: lookahead_def)
qed

text \<open>
  After a directive or a comment marker the cursor may be anywhere, but then the current
  character is \<^verbatim>\<open>#\<close>, \<^verbatim>\<open>/\<close> or \<^verbatim>\<open>*\<close>, and for these the classification reads nothing
  through the cursor but what it writes itself.
\<close>

lemma classify_at_cpp:
  assumes "c \<noteq> CHR ''#'' \<and> c \<noteq> CHR ''/'' \<and> c \<noteq> CHR ''*'' \<Longrightarrow> position s < length (input s)"
  shows "\<exists>s'. classify at_cpp c s = Inr s'"
proof (cases "c \<noteq> CHR ''#'' \<and> c \<noteq> CHR ''/'' \<and> c \<noteq> CHR ''*''")
  case True
  with assms have inside: "position s < length (input s)" by simp
  obtain w s1 where w: "getNextWord at_cpp s = Inr (w, s1)"
    using getNextWord_at_cpp [of s] inside by auto
  obtain n s2 where n: "getNextNumber s = Inr (n, s2)"
    using getNextNumber_returns [of s] inside by auto
  obtain b1 where b1: "lookahead at_cpp s c (CHR ''<'') (CHR ''<'') = Inr b1"
    using lookahead_at_cpp [of c _ s] inside by blast
  obtain b2 where b2: "lookahead at_cpp s c (CHR ''>'') (CHR ''>'') = Inr b2"
    using lookahead_at_cpp [of c _ s] inside by blast
  show ?thesis
    by (simp add: classify_def w n b1 b2 bind_def split: prod.splits)
next
  case False
  then consider "c = CHR ''#''" | "c = CHR ''/''" | "c = CHR ''*''" by blast
  then show ?thesis
  proof cases
    case 1
    then show ?thesis
      by (simp add: classify_def lookahead_def bind_def isAlpha_def isDigit_def dquote_def
          split: prod.splits)
  next
    case 2
    then show ?thesis
      by (simp add: classify_def lookahead_def bind_def isAlpha_def isDigit_def dquote_def
          split: prod.splits)
  next
    case 3
    then show ?thesis
      by (simp add: classify_def lookahead_def bind_def isAlpha_def isDigit_def dquote_def
          split: prod.splits)
  qed
qed

lemma comment_end_at_cpp:
  assumes "c \<noteq> CHR ''#'' \<and> c \<noteq> CHR ''/'' \<Longrightarrow> position s < length (input s)"
  shows "\<exists>s'. comment_end at_cpp c s = Inr s'"
proof -
  obtain b where b: "(if inMultiLineComment s
           then lookahead at_cpp s c (CHR ''*'') (CHR ''/'') else Inr False) = Inr b"
    using lookahead_at_cpp [of c "CHR ''*''" s "CHR ''/''"] assms
    by (cases "inMultiLineComment s") auto
  define s' where "s' = (if b
                    then s\<lparr>inMultiLineComment := False, position := size_t (position s + 2)\<rparr>
                    else s)"
  have "b \<Longrightarrow> c = CHR ''*''"
    using b by (auto simp add: lookahead_def split: if_splits)
  then have "c \<noteq> CHR ''#'' \<and> c \<noteq> CHR ''/'' \<and> c \<noteq> CHR ''*''
      \<Longrightarrow> position s' < length (input s')"
    using assms by (auto simp add: s'_def)
  then obtain t where t: "classify at_cpp c s' = Inr t"
    using classify_at_cpp [of c s'] by blast
  show ?thesis
    unfolding comment_end_def b using t by (simp add: bind_def Let_def s'_def)
qed

lemma loop_body_at_cpp:
  assumes "position s < length (input s)"
  shows "\<exists>s'. loop_body at_cpp s = Inr s'"
proof -
  define c where "c = input s ! position s"
  have "\<exists>s1. directive at_cpp c s = Inr s1 \<and> (c \<noteq> CHR ''#'' \<longrightarrow> s1 = s)"
  proof (cases "c = CHR ''#''")
    case True
    obtain w t where "getNextWord at_cpp s = Inr (w, t)"
      using getNextWord_at_cpp [of s] assms by auto
    with True show ?thesis by (simp add: directive_def bind_def)
  next
    case False
    then show ?thesis by (simp add: directive_def)
  qed
  then obtain s1 where s1: "directive at_cpp c s = Inr s1"
    and same: "c \<noteq> CHR ''#'' \<Longrightarrow> s1 = s"
    by blast
  have inside: "c \<noteq> CHR ''#'' \<Longrightarrow> position s1 < length (input s1)"
    using same assms by simp
  obtain b1 where b1: "lookahead at_cpp s1 c (CHR ''/'') (CHR ''*'') = Inr b1"
    using lookahead_at_cpp [of c "CHR ''/''" s1] inside by blast
  obtain b2 where b2: "lookahead at_cpp s1 c (CHR ''/'') (CHR ''/'') = Inr b2"
    using lookahead_at_cpp [of c "CHR ''/''" s1] inside by blast
  have "b1 \<Longrightarrow> c = CHR ''/''"
    using b1 by (auto simp add: lookahead_def split: if_splits)
  then obtain t1 where t1: "b1 \<Longrightarrow> comment_end at_cpp c
                 (s1\<lparr>inMultiLineComment := True, position := size_t (position s1 + 2)\<rparr>) = Inr t1"
    using comment_end_at_cpp
      [of c "s1\<lparr>inMultiLineComment := True, position := size_t (position s1 + 2)\<rparr>"]
    by blast
  obtain t2 where t2: "comment_end at_cpp c s1 = Inr t2"
    using comment_end_at_cpp [of c s1] inside by blast
  show ?thesis
    unfolding loop_body_def Let_def c_def [symmetric]
    using t1 t2 by (simp add: s1 b1 b2 bind_def)
qed

text \<open>
  C2. The claim: the scan never reads a character at an index past the end of the input;
  every look-ahead read is at the index of a character of the input.

  What holds of the source: with the reader of the C++ library, no run of \<^verbatim>\<open>tokenize\<close>
  fails. Every read is at an index of at most \<^verbatim>\<open>input.size()\<close>, where \<^verbatim>\<open>operator[]\<close>
  is defined, and no \<^verbatim>\<open>substr\<close> starts behind the end.
\<close>

theorem tokenize_reads_within_terminated_buffer:
  "tokenize at_cpp source \<noteq> Some (Inl e)"
proof -
  have "tokenize_loop at_cpp (LexicalAnalyzer source) \<noteq> Some (Inl e)"
    by (rule tokenize_loop_no_error) (use loop_body_at_cpp in fastforce)
  then show ?thesis
    by (auto simp add: tokenize_def map_sum_def split: sum.splits)
qed

text \<open>
  The claim as stated fails: on the one-character input \<^verbatim>\<open><\<close> the test for the shift
  operator reads \<^verbatim>\<open>input[1]\<close>, the index of no character of the input. With indexing as
  an option that read is the failure branch.
\<close>

theorem lookahead_reads_index_length:
  "tokenize at_checked ''<'' = Some (Inl OutOfRange)"
  by (simp add: run_defs char_defs at_checked_def)

subsection \<open>The unconditional advance of line 294\<close>

text \<open>
  C3. The claim: tokenizing \<^verbatim>\<open><<=\<close> yields \<open>Operator("<<")\<close> followed by
  \<open>Operator("=")\<close>.

  The source yields \<open>Operator("<<")\<close> alone. The shift branch advances the cursor by two,
  onto the \<^verbatim>\<open>=\<close>, and line 294 advances it once more, past the end of the input.
\<close>

theorem tokenize_shift_assign:
  "tokenize at_cpp ''<<='' = Some (Inr ([Token OPERATOR ''<<''], ''<<''))"
  by (simp add: run_defs char_defs at_cpp_def)

text \<open>
  C4. The claim: after an iteration that emits a token through a sub-scan (word, number,
  string literal, two-character operator), the cursor is exactly one past the last
  character of the lexeme, so the next character is never skipped.

  On the input \<^verbatim>\<open>12;\<close> the first iteration emits \<open>Literal("12")\<close>, whose last character
  has index 1, and ends with the cursor at 3: \<^verbatim>\<open>getNextNumber\<close> leaves the cursor at 2
  and line 294 adds one. The separator at index 2 is never scanned.
\<close>

theorem number_branch_skips_next_character:
  "loop_body at_cpp (LexicalAnalyzer ''12;'') =
     Inr \<lparr>input = ''12;'', position = 3, cleanedInput = ''12'',
          tokens = [Token LITERAL ''12''], inMultiLineComment = False\<rparr>
   \<and> tokenize at_cpp ''12;'' = Some (Inr ([Token LITERAL ''12''], ''12''))"
  by (simp add: run_defs char_defs at_cpp_def)

subsection \<open>Keywords and identifiers\<close>

lemma dom_upd_Some: "dom (m(k \<mapsto> v)) = insert k (dom m)"
  by simp

text \<open>The table that \<^verbatim>\<open>initKeywords\<close> builds has exactly the nineteen entries.\<close>

lemma keywords_map_dom:
  "dom keywords_map =
     {''int'', ''float'', ''if'', ''else'', ''while'', ''return'', ''string'', ''do'', ''void'',
      ''cout'', ''endl'', ''for'', ''#include'', ''using'', ''namespace'', ''std'', ''iostream'',
      ''fstream'', ''vector''}"
  unfolding keywords_map_def initKeywords_def
  by (simp only: dom_upd_Some dom_empty insert_commute)

lemma isAlpha_not_special:
  assumes "isAlpha c"
  shows "\<not> isWhitespace c" "c \<noteq> CHR ''#''" "c \<noteq> CHR ''/''" "c \<noteq> CHR ''_''"
    "isAlphaNumeric c"
  using assms by (auto simp add: isAlpha_def isWhitespace_def isAlphaNumeric_def)

lemma isAlphaNumeric_not_underscore: "isAlphaNumeric c \<Longrightarrow> c \<noteq> CHR ''_''"
  by (auto simp add: isAlphaNumeric_def isAlpha_def isDigit_def)

lemma scanWord_word:
  assumes "\<forall>x\<in>set w. isAlphaNumeric x" and "\<not> isAlphaNumeric c"
  shows "scanWord (pre @ w @ c # rest) (length pre) = length pre + length w"
  using assms
proof (induction w arbitrary: pre)
  case Nil
  then show ?case by (subst scanWord.simps) simp
next
  case (Cons x xs)
  have "scanWord (pre @ (x # xs) @ c # rest) (length pre)
        = scanWord ((pre @ [x]) @ xs @ c # rest) (length (pre @ [x]))"
    using Cons.prems isAlphaNumeric_not_underscore [of x]
    by (subst scanWord.simps) simp
  also have "\<dots> = length (pre @ [x]) + length xs"
    using Cons.prems by (intro Cons.IH) simp_all
  finally show ?case by simp
qed

text \<open>
  The path of the word branch that works. A word \<open>w\<close> that starts with a letter and is
  followed in the input by a character \<open>c\<close> that is not alphanumeric is emitted whole, as a
  keyword if and only if it is in the table, and the cursor ends on \<open>c\<close>, one past the
  word; unless \<open>c\<close> has index 95 and a letter or digit follows it.
\<close>

lemma terminated_word:
  assumes inp: "input s = pre @ w @ c # rest" and pos: "position s = length pre"
    and outside: "\<not> inMultiLineComment s"
    and w: "w \<noteq> []" "isAlpha (hd w)" "\<forall>x\<in>set w. isAlphaNumeric x"
    and c: "\<not> isAlphaNumeric c"
    and stop95: "length pre + length w = 95 \<Longrightarrow> rest \<noteq> [] \<Longrightarrow> \<not> isAlphaNumeric (hd rest)"
    and size: "length (input s) < 2 ^ 64"
  shows "loop_body at_cpp s =
     Inr (s\<lparr>position := length pre + length w,
            tokens := tokens s @ [Token (if w \<in> dom keywords_map then KEYWORD else IDENTIFIER) w],
            cleanedInput := cleanedInput s @ w\<rparr>)"
proof -
  define p where "p = length pre + length w"
  have cur: "input s ! position s = hd w"
    using inp pos w(1) by (cases w) (simp_all add: nth_append)
  have scan: "scanWord (input s) (length pre) = p"
    using scanWord_word [OF w(3) c] inp by (simp add: p_def)
  have sub: "take (p - length pre) (drop (length pre) (input s)) = w"
    using inp by (simp add: p_def)
  have stop: "input s ! p = c"
    using inp by (simp add: nth_append p_def)
  have lt: "p < length (input s)" and pos_p: "0 < p"
    and start_ok: "\<not> length (input s) < length pre"
    using inp w(1) by (simp_all add: p_def)
  have behind: "\<exists>d. at_cpp (input s) (p + 1) = Inr d \<and> \<not> isAlphaNumeric d" if "p = 95"
  proof (cases rest)
    case Nil
    with inp show ?thesis
      by (simp add: at_cpp_def NUL_def isAlphaNumeric_def isAlpha_def isDigit_def p_def)
  next
    case (Cons d ds)
    with stop95 that have "\<not> isAlphaNumeric d" by (simp add: p_def)
    moreover have "input s ! (p + 1) = d"
      using inp Cons by (simp add: nth_append p_def)
    ultimately show ?thesis using inp Cons by (simp add: at_cpp_def p_def)
  qed
  have word: "getNextWord at_cpp s = Inr (w, s\<lparr>position := p - 1\<rparr>)"
  proof (cases "p = 95")
    case True
    from behind [OF True] obtain d where
      d: "at_cpp (input s) (p + 1) = Inr d" "\<not> isAlphaNumeric d" by blast
    with True c lt stop sub pos_p start_ok show ?thesis
      by (simp add: getNextWord_def Let_def scan bind_def substr_def decr_def pos)
  next
    case False
    with c lt stop sub pos_p start_ok show ?thesis
      by (simp add: getNextWord_def Let_def scan bind_def substr_def decr_def pos)
  qed
  have landed: "size_t (p - 1 + 1) = p"
    using pos_p lt size by (simp add: size_t_def)
  note sp = isAlpha_not_special [OF w(2)]
  have "loop_body at_cpp s =
     Inr (s\<lparr>position := p,
            tokens := tokens s @ [Token (if w \<in> dom keywords_map then KEYWORD else IDENTIFIER) w],
            cleanedInput := cleanedInput s @ w\<rparr>)"
    using sp outside landed
    by (simp add: loop_body_def Let_def cur directive_def lookahead_def bind_def
        comment_end_def classify_def w(2) word append_cleaned_def emplace_back_def domIff)
  then show ?thesis by (simp add: p_def)
qed


lemma terminated_word_example:
  "loop_body at_cpp (LexicalAnalyzer ''int x'') =
     Inr \<lparr>input = ''int x'', position = 3, cleanedInput = ''int'',
          tokens = [Token KEYWORD ''int''], inMultiLineComment = False\<rparr>"
  using terminated_word [of "LexicalAnalyzer ''int x''" "[]" "''int''" "CHR '' ''" "''x''"]
  by (simp add: LexicalAnalyzer_def keywords_map_dom char_defs)

text \<open>
  Line 105 compares the cursor, not the character under it, with \<^verbatim>\<open>'_'\<close>. A word whose
  terminating character has index 95 and is followed by a letter or digit takes that
  character into its lexeme: here the keyword \<^verbatim>\<open>int\<close> at index 92 becomes the identifier
  \<^verbatim>\<open>int\<close> with a trailing blank.
\<close>

lemma word_ending_at_index_95:
  "loop_body at_cpp
     \<lparr>input = replicate 92 (CHR '' '') @ ''int x;'', position = 92, cleanedInput = [],
      tokens = [], inMultiLineComment = False\<rparr> =
   Inr \<lparr>input = replicate 92 (CHR '' '') @ ''int x;'', position = 96, cleanedInput = ''int '',
        tokens = [Token IDENTIFIER ''int ''], inMultiLineComment = False\<rparr>"
  by (simp add: body_defs scan_simps char_defs at_cpp_def nth_append)

text \<open>
  C5. The claim: a word that begins with an alphabetic character is classified as a
  keyword if and only if it is an entry of the keyword table, and as an identifier
  otherwise.

  On the input \<^verbatim>\<open>int\<close>, a table entry that ends at the end of the input,
  \<^verbatim>\<open>getNextWord\<close> finds no terminating character and returns the empty string; the
  token is an identifier with an empty lexeme.
\<close>

theorem keyword_at_end_of_input:
  "tokenize at_cpp ''int'' = Some (Inr ([Token IDENTIFIER []], []))"
  by (simp add: run_defs char_defs at_cpp_def)

subsection \<open>Numbers\<close>

text \<open>
  C6. The claim: \<^verbatim>\<open>123\<close> yields \<open>Literal("123")\<close>, \<^verbatim>\<open>3.14\<close> yields \<open>Literal("3.14")\<close>,
  and \<^verbatim>\<open>3.14.15\<close> yields \<open>Literal("3.14")\<close>, after which the second point, which the
  number sub-scan does not consume, is processed by the main loop.

  The first two hold. On \<^verbatim>\<open>3.14.15\<close> the sub-scan stops at the second point, and line 294
  steps over it: the scan goes on at the \<^verbatim>\<open>1\<close> behind it and emits \<open>Literal("15")\<close>. No
  token is emitted for the second point, and it is not in the cleaned text.
\<close>

theorem tokenize_numbers:
  "tokenize at_cpp ''123'' = Some (Inr ([Token LITERAL ''123''], ''123''))
   \<and> tokenize at_cpp ''3.14'' = Some (Inr ([Token LITERAL ''3.14''], ''3.14''))
   \<and> tokenize at_cpp ''3.14.15'' =
         Some (Inr ([Token LITERAL ''3.14'', Token LITERAL ''15''], ''3.1415''))"
  by (simp add: run_defs char_defs at_cpp_def)

subsection \<open>The cleaned text\<close>

lemma lockstep_trans: "lockstep s s1 \<Longrightarrow> lockstep s1 s2 \<Longrightarrow> lockstep s s2"
  by (auto simp add: lockstep_def)

lemma getNextWord_frame:
  assumes "getNextWord rd s = Inr (w, s')"
  shows "input s' = input s \<and> tokens s' = tokens s \<and> cleanedInput s' = cleanedInput s"
  using assms
  by (auto simp add: getNextWord_def Let_def bind_def split: if_splits sum.splits)

lemma getNextNumber_frame:
  assumes "getNextNumber s = Inr (w, s')"
  shows "input s' = input s \<and> tokens s' = tokens s \<and> cleanedInput s' = cleanedInput s"
  using assms
  by (auto simp add: getNextNumber_def Let_def bind_def split: if_splits sum.splits)

lemma directive_lockstep:
  assumes "directive rd c s = Inr s1"
  shows "lockstep s s1"
proof (cases "c = CHR ''#''")
  case False
  with assms show ?thesis by (simp add: directive_def lockstep_def)
next
  case True
  with assms obtain w t where w: "getNextWord rd s = Inr (w, t)"
    and s1: "s1 = append_cleaned w (emplace_back KEYWORD w t)"
    by (auto simp add: directive_def bind_def split: sum.splits)
  from getNextWord_frame [OF w] s1 show ?thesis
    by (simp add: lockstep_def append_cleaned_def emplace_back_def)
qed

text \<open>
  Every branch of the classification but the string literal appends the same text to the
  token vector and to the cleaned text.
\<close>

lemma classify_lockstep:
  assumes "c \<noteq> dquote" and "classify rd c s = Inr s'"
  shows "lockstep s s'"
proof -
  consider (word) "isAlpha c"
    | (underscore) "\<not> isAlpha c" "c = CHR ''_''"
    | (number) "\<not> isAlpha c" "c \<noteq> CHR ''_''" "isDigit c"
    | (other) "\<not> isAlpha c" "c \<noteq> CHR ''_''" "\<not> isDigit c"
    by blast
  then show ?thesis
  proof cases
    case word
    with assms obtain w t where w: "getNextWord rd s = Inr (w, t)"
      and s': "s' = append_cleaned w
             (if keywords_map w \<noteq> None then emplace_back KEYWORD w t
              else emplace_back IDENTIFIER w t)"
      by (auto simp add: classify_def bind_def split: sum.splits)
    from getNextWord_frame [OF w] s' show ?thesis
      by (simp add: lockstep_def append_cleaned_def emplace_back_def)
  next
    case underscore
    with assms show ?thesis
      by (auto simp add: classify_def lockstep_def append_cleaned_def emplace_back_def
          split: prod.splits)
  next
    case number
    with assms obtain w t where w: "getNextNumber s = Inr (w, t)"
      and s': "s' = append_cleaned w (emplace_back LITERAL w t)"
      by (auto simp add: classify_def bind_def split: sum.splits if_splits)
    from getNextNumber_frame [OF w] s' show ?thesis
      by (simp add: lockstep_def append_cleaned_def emplace_back_def)
  next
    case other
    show ?thesis
    proof (cases "lookahead rd s c (CHR ''<'') (CHR ''<'')")
      case (Inl e)
      with other assms show ?thesis by (simp add: classify_def bind_def)
    next
      case shl: (Inr b1)
      show ?thesis
      proof (cases b1)
        case True
        with other shl assms show ?thesis
          by (auto simp add: classify_def bind_def lockstep_def append_cleaned_def
              emplace_back_def)
      next
        case nshl: False
        show ?thesis
        proof (cases "lookahead rd s c (CHR ''>'') (CHR ''>'')")
          case (Inl e)
          with other shl nshl assms show ?thesis by (simp add: classify_def bind_def)
        next
          case shr: (Inr b2)
          from other shl nshl shr assms(1) assms(2) [symmetric] show ?thesis
            by (simp add: classify_def bind_def lockstep_def append_cleaned_def
                emplace_back_def split: if_splits)
        qed
      qed
    qed
  qed
qed

lemma comment_end_lockstep:
  assumes "c \<noteq> dquote" and "comment_end rd c s = Inr s'"
  shows "lockstep s s'"
proof -
  obtain b where b: "(if inMultiLineComment s
           then lookahead rd s c (CHR ''*'') (CHR ''/'') else Inr False) = Inr b"
    using assms(2)
    by (cases "if inMultiLineComment s
           then lookahead rd s c (CHR ''*'') (CHR ''/'') else Inr False")
      (simp_all add: comment_end_def bind_def)
  define s0 where "s0 = (if b
                    then s\<lparr>inMultiLineComment := False, position := size_t (position s + 2)\<rparr>
                    else s)"
  have l0: "lockstep s s0" by (simp add: s0_def lockstep_def)
  from assms(2) have eq:
    "(\<not> inMultiLineComment s0
        \<and> (\<exists>t. classify rd c s0 = Inr t \<and> s' = t\<lparr>position := size_t (position t + 1)\<rparr>))
     \<or> (inMultiLineComment s0 \<and> s' = s0)"
    unfolding comment_end_def b bind_Inr Let_def s0_def [symmetric]
    by (auto simp add: bind_eq_Inr split: if_splits)
  then show ?thesis
  proof
    assume "\<not> inMultiLineComment s0
        \<and> (\<exists>t. classify rd c s0 = Inr t \<and> s' = t\<lparr>position := size_t (position t + 1)\<rparr>)"
    then obtain t where t: "classify rd c s0 = Inr t"
      and s': "s' = t\<lparr>position := size_t (position t + 1)\<rparr>" by blast
    have "lockstep s0 t" by (rule classify_lockstep [OF assms(1) t])
    then have "lockstep s0 s'" by (simp add: s' lockstep_def)
    with l0 show ?thesis by (rule lockstep_trans)
  next
    assume "inMultiLineComment s0 \<and> s' = s0"
    with l0 show ?thesis by simp
  qed
qed

lemma loop_body_lockstep:
  assumes "input s ! position s \<noteq> dquote" and "loop_body rd s = Inr s'"
  shows "lockstep s s'"
proof (cases "isWhitespace (input s ! position s)")
  case True
  with assms show ?thesis by (auto simp add: loop_body_def Let_def lockstep_def)
next
  case False
  define c where "c = input s ! position s"
  have nq: "c \<noteq> dquote" using assms(1) by (simp add: c_def)
  from assms(2) False have eq: "bind (directive rd c s) (\<lambda>s1.
           bind (lookahead rd s1 c (CHR ''/'') (CHR ''*'')) (\<lambda>opening.
             if opening then
               comment_end rd c
                 (s1\<lparr>inMultiLineComment := True, position := size_t (position s1 + 2)\<rparr>)
             else bind (lookahead rd s1 c (CHR ''/'') (CHR ''/'')) (\<lambda>line.
               if line then Inr (s1\<lparr>position := skipLine (input s1) (position s1)\<rparr>)
               else comment_end rd c s1))) = Inr s'"
    unfolding loop_body_def Let_def c_def by simp
  then obtain s1 where s1: "directive rd c s = Inr s1"
    by (cases "directive rd c s") (simp_all add: bind_def)
  have l1: "lockstep s s1" by (rule directive_lockstep [OF s1])
  from eq s1 obtain b1 where b1: "lookahead rd s1 c (CHR ''/'') (CHR ''*'') = Inr b1"
    by (cases "lookahead rd s1 c (CHR ''/'') (CHR ''*'')") (simp_all add: bind_def)
  have "lockstep s1 s'"
  proof (cases b1)
    case True
    with eq s1 b1 have "comment_end rd c
        (s1\<lparr>inMultiLineComment := True, position := size_t (position s1 + 2)\<rparr>) = Inr s'"
      by (simp add: bind_def)
    from comment_end_lockstep [OF nq this] show ?thesis by (simp add: lockstep_def)
  next
    case False
    with eq s1 b1 obtain b2 where b2: "lookahead rd s1 c (CHR ''/'') (CHR ''/'') = Inr b2"
      by (cases "lookahead rd s1 c (CHR ''/'') (CHR ''/'')") (simp_all add: bind_def)
    show ?thesis
    proof (cases b2)
      case True
      with eq s1 b1 b2 False show ?thesis by (auto simp add: bind_def lockstep_def)
    next
      case nline: False
      with eq s1 b1 b2 False have "comment_end rd c s1 = Inr s'" by (simp add: bind_def)
      then show ?thesis by (rule comment_end_lockstep [OF nq])
    qed
  qed
  with l1 show ?thesis by (rule lockstep_trans)
qed

text \<open>
  For an input without a double quote on which the scan returns, the cleaned text is the
  lexemes of the emitted tokens, one after the other with nothing between them:
  whitespace is not copied to the cleaned text.
\<close>

lemma cleaned_text_is_emitted_lexemes:
  assumes "dquote \<notin> set source"
    and "tokenize at_cpp source = Some (Inr (toks, cleaned))"
  shows "cleaned = concat (map tvalue toks)"
proof -
  from assms(2) obtain t where run: "tokenize_loop at_cpp (LexicalAnalyzer source) = Some (Inr t)"
    and t: "toks = tokens t" "cleaned = cleanedInput t"
    by (cases "tokenize_loop at_cpp (LexicalAnalyzer source)" rule: option.exhaust;
        cases "the (tokenize_loop at_cpp (LexicalAnalyzer source))")
      (auto simp add: tokenize_def)
  let ?I = "\<lambda>u. input u = source \<and> cleanedInput u = concat (map tvalue (tokens u))"
  have "?I t"
  proof (rule tokenize_loop_invariant [OF run, where I = ?I])
    show "?I (LexicalAnalyzer source)" by (simp add: LexicalAnalyzer_def)
  next
    fix u v
    assume inv: "?I u" and inside: "position u < length (input u)"
      and body: "loop_body at_cpp u = Inr v"
    from inv inside assms(1) have "input u ! position u \<noteq> dquote"
      by (metis nth_mem)
    from loop_body_lockstep [OF this body] inv show "?I v"
      by (auto simp add: lockstep_def)
  qed
  with t show ?thesis by simp
qed

subsection \<open>Scanning the cleaned text again\<close>














text \<open>
  The advance of line 294 separates the two scans as well: in \<^verbatim>\<open>a=b;\<close> it steps over the
  \<^verbatim>\<open>b\<close>, in the cleaned text \<^verbatim>\<open>a=;\<close> over the separator.
\<close>

lemma retokenize_after_double_advance:
  "tokenize at_cpp ''a=b;'' =
     Some (Inr ([Token IDENTIFIER ''a'', Token OPERATOR ''='', Token SEPARATOR '';''], ''a=;''))
   \<and> tokenize at_cpp ''a=;'' =
     Some (Inr ([Token IDENTIFIER ''a'', Token OPERATOR ''=''], ''a=''))"
  by (simp add: run_defs char_defs at_cpp_def)

subsection \<open>String literals\<close>

text \<open>
  An iteration that starts on a double quote outside a comment is the string branch and
  nothing else: the sub-scan, at most one token, the quoted text appended to the cleaned
  text, and the advance of line 294.
\<close>

lemma loop_body_at_quote:
  assumes "position s < length (input s)" and "input s ! position s = dquote"
    and "\<not> inMultiLineComment s"
  shows "loop_body rd s =
    (case scanString (input s) (size_t (position s + 1)) False [] of
      (p, lit) \<Rightarrow> Inr (s\<lparr>position := size_t (p + 1),
                         tokens := tokens s @ (if lit = [] then [] else [Token LITERAL lit]),
                         cleanedInput := cleanedInput s @ dquote # lit @ [dquote]\<rparr>))"
  using assms
  by (simp add: loop_body_def comment_end_def classify_def directive_def lookahead_def
      emplace_back_def append_cleaned_def bind_def Let_def char_defs split: prod.splits)

lemma scanString_no_backslash:
  "backslash \<notin> set lit \<Longrightarrow> backslash \<notin> set (snd (scanString inp p esc lit))"
proof (induction inp p esc lit rule: scanString.induct)
  case (1 inp p esc lit)
  then show ?case
    by (subst scanString.simps) auto
qed

text \<open>
  A quote is escaped when the character before it is a backslash: every backslash sets
  the flag and every other character clears it. Where every quote behind the cursor is
  escaped, the sub-scan runs to the end of the input and collects every character but
  the backslashes.
\<close>

lemma scanString_no_closing_quote:
  assumes "p \<le> length inp"
    and "\<forall>i. p \<le> i \<and> i < length inp \<and> inp ! i = dquote \<longrightarrow>
           (if i = p then esc else inp ! (i - 1) = backslash)"
  shows "scanString inp p esc lit = (length inp, lit @ filter (\<lambda>c. c \<noteq> backslash) (drop p inp))"
  using assms
proof (induction inp p esc lit rule: scanString.induct)
  case (1 inp p esc lit)
  show ?case
  proof (cases "p < length inp")
    case False
    with "1.prems" show ?thesis by (subst scanString.simps) simp
  next
    case True
    then have unfold: "drop p inp = inp ! p # drop (p + 1) inp"
      by (simp add: Cons_nth_drop_Suc)
    have not_closing: "\<not> (inp ! p = dquote \<and> \<not> esc)"
      using "1.prems"(2) True by auto
    have later: "p + 1 < i \<and> i < length inp \<and> inp ! i = dquote \<Longrightarrow> inp ! (i - 1) = backslash" for i
      using "1.prems"(2) [rule_format, of i] by auto
    show ?thesis
    proof (cases "inp ! p = backslash")
      case bs: True
      have hyp: "\<forall>i. p + 1 \<le> i \<and> i < length inp \<and> inp ! i = dquote \<longrightarrow>
           (if i = p + 1 then True else inp ! (i - 1) = backslash)"
        using later by auto
      have "scanString inp p esc lit = scanString inp (p + 1) True lit"
        using True not_closing bs by (subst scanString.simps) (simp add: dquote_def backslash_def)
      also have "\<dots> = (length inp, lit @ filter (\<lambda>c. c \<noteq> backslash) (drop (p + 1) inp))"
        using "1.IH"(1) [OF True _ bs _ hyp] True not_closing bs by (simp add: dquote_def backslash_def)
      finally show ?thesis using bs unfold by simp
    next
      case nbs: False
      have next_quote: "p + 1 < length inp \<Longrightarrow> inp ! (p + 1) \<noteq> dquote"
        using "1.prems"(2) [rule_format, of "p + 1"] nbs by auto
      have hyp: "\<forall>i. p + 1 \<le> i \<and> i < length inp \<and> inp ! i = dquote \<longrightarrow>
           (if i = p + 1 then False else inp ! (i - 1) = backslash)"
        using later next_quote by auto
      have "scanString inp p esc lit = scanString inp (p + 1) False (lit @ [inp ! p])"
        using True not_closing nbs by (subst scanString.simps) auto
      also have "\<dots> = (length inp,
          (lit @ [inp ! p]) @ filter (\<lambda>c. c \<noteq> backslash) (drop (p + 1) inp))"
        using "1.IH"(2) [OF True _ nbs _ hyp] True not_closing by auto
      finally show ?thesis using nbs unfold by simp
    qed
  qed
qed


text \<open>
  C8. The claim: if the input ends before the closing quote of a string literal is found,
  the scan does not fail; it emits a single literal token whose content is the text
  collected so far.

  What holds of the source, for a scan that stands on an opening quote outside a comment
  with no unescaped double quote behind it (every later quote follows a backslash), in
  an input of a length a \<^verbatim>\<open>std::string\<close> can have: the loop returns; the text collected
  is the rest of the input without its backslashes; if that text is not empty, exactly
  one literal token with it is appended, and if it is empty no token is; in both cases
  the text, in quotes, is appended to the cleaned text.
\<close>

theorem unterminated_string_recovered:
  assumes inside: "position s < length (input s)"
    and quote: "input s ! position s = dquote"
    and outside: "\<not> inMultiLineComment s"
    and unterminated: "\<forall>i. position s < i \<and> i < length (input s) \<and> input s ! i = dquote
                          \<longrightarrow> input s ! (i - 1) = backslash"
    and size: "length (input s) < 2 ^ 64 - 1"
  shows "tokenize_loop at_cpp s =
    Some (Inr (s\<lparr>position := length (input s) + 1,
                 tokens := tokens s @
                   (if filter (\<lambda>c. c \<noteq> backslash) (drop (position s + 1) (input s)) = []
                    then []
                    else [Token LITERAL
                            (filter (\<lambda>c. c \<noteq> backslash) (drop (position s + 1) (input s)))]),
                 cleanedInput := cleanedInput s @
                    dquote # filter (\<lambda>c. c \<noteq> backslash) (drop (position s + 1) (input s))
                    @ [dquote]\<rparr>))"
proof -
  let ?lit = "filter (\<lambda>c. c \<noteq> backslash) (drop (position s + 1) (input s))"
  let ?s' = "s\<lparr>position := length (input s) + 1,
                 tokens := tokens s @ (if ?lit = [] then [] else [Token LITERAL ?lit]),
                 cleanedInput := cleanedInput s @ dquote # ?lit @ [dquote]\<rparr>"
  have next_pos: "size_t (Suc (position s)) = Suc (position s)"
    using inside size by (intro size_t_small) simp
  have end_pos: "size_t (Suc (length (input s))) = Suc (length (input s))"
    using size by (intro size_t_small) simp
  have no_closing: "\<forall>i. position s + 1 \<le> i \<and> i < length (input s) \<and> input s ! i = dquote \<longrightarrow>
           (if i = position s + 1 then False else input s ! (i - 1) = backslash)"
  proof (intro allI impI)
    fix i
    assume i: "position s + 1 \<le> i \<and> i < length (input s) \<and> input s ! i = dquote"
    with unterminated have prev: "input s ! (i - 1) = backslash" by simp
    show "if i = position s + 1 then False else input s ! (i - 1) = backslash"
    proof (cases "i = position s + 1")
      case True
      with prev quote show ?thesis by (simp add: dquote_def backslash_def)
    next
      case False
      with prev show ?thesis by simp
    qed
  qed
  have scan: "scanString (input s) (Suc (position s)) False [] = (length (input s), ?lit)"
    using scanString_no_closing_quote [of "position s + 1" "input s" False "[]"]
      inside no_closing by simp
  have body: "loop_body at_cpp s = Inr ?s'"
    by (simp add: loop_body_at_quote [OF inside quote outside] next_pos scan end_pos)
  have "tokenize_loop at_cpp s = tokenize_loop at_cpp ?s'"
    using inside by (subst tokenize_loop.simps) (simp add: body)
  also have "\<dots> = Some (Inr ?s')"
    by (subst tokenize_loop.simps) simp
  finally show ?thesis .
qed

text \<open>
  The example of the claim, a double quote followed by \<^verbatim>\<open>abc\<close>, and an unterminated
  literal with an escaped quote in it.
\<close>

theorem unterminated_string_recovered_witness:
  "tokenize at_cpp [dquote, CHR ''a'', CHR ''b'', CHR ''c''] =
     Some (Inr ([Token LITERAL ''abc''], [dquote, CHR ''a'', CHR ''b'', CHR ''c'', dquote]))
   \<and> tokenize at_cpp [dquote, CHR ''a'', backslash, dquote, CHR ''b''] =
     Some (Inr ([Token LITERAL [CHR ''a'', dquote, CHR ''b'']],
                [dquote, CHR ''a'', dquote, CHR ''b'', dquote]))"
proof (rule conjI)
  have "\<forall>i. (0::nat) < i \<and> i < 4 \<and> [dquote, CHR ''a'', CHR ''b'', CHR ''c''] ! i = dquote
       \<longrightarrow> [dquote, CHR ''a'', CHR ''b'', CHR ''c''] ! (i - 1) = backslash"
    by (auto simp add: dquote_def less_Suc_eq numeral_eq_Suc)
  then show "tokenize at_cpp [dquote, CHR ''a'', CHR ''b'', CHR ''c''] =
     Some (Inr ([Token LITERAL ''abc''], [dquote, CHR ''a'', CHR ''b'', CHR ''c'', dquote]))"
    using unterminated_string_recovered [of "LexicalAnalyzer [dquote, CHR ''a'', CHR ''b'', CHR ''c'']"]
    by (simp add: tokenize_def LexicalAnalyzer_def dquote_def backslash_def)
next
  have "\<forall>i. (0::nat) < i \<and> i < 5 \<and> [dquote, CHR ''a'', backslash, dquote, CHR ''b''] ! i = dquote
       \<longrightarrow> [dquote, CHR ''a'', backslash, dquote, CHR ''b''] ! (i - 1) = backslash"
    by (auto simp add: dquote_def backslash_def less_Suc_eq numeral_eq_Suc)
  then show "tokenize at_cpp [dquote, CHR ''a'', backslash, dquote, CHR ''b''] =
     Some (Inr ([Token LITERAL [CHR ''a'', dquote, CHR ''b'']],
                [dquote, CHR ''a'', dquote, CHR ''b'', dquote]))"
    using unterminated_string_recovered [of "LexicalAnalyzer [dquote, CHR ''a'', backslash, dquote, CHR ''b'']"]
    by (simp add: tokenize_def LexicalAnalyzer_def dquote_def backslash_def)
qed


text \<open>
  The claim as stated fails where nothing is collected: the input that is a double quote
  alone ends before a closing quote is found, and no token is emitted for it.
\<close>

theorem unterminated_empty_string_no_token:
  "tokenize at_cpp [dquote] = Some (Inr ([], [dquote, dquote]))"
  by (simp add: run_defs char_defs at_cpp_def)

text \<open>
  C9. When the inner text of a string literal is empty (the opening quote is followed at
  once by a quote), the iteration leaves the token sequence as it was and appends an
  empty quoted pair to the cleaned text.
\<close>

theorem empty_string_literal_frame:
  assumes inside: "position s + 1 < length (input s)"
    and quote: "input s ! position s = dquote"
    and closing: "input s ! (position s + 1) = dquote"
    and outside: "\<not> inMultiLineComment s"
    and size: "length (input s) < 2 ^ 64"
  shows "\<exists>s'. loop_body at_cpp s = Inr s' \<and> tokens s' = tokens s
           \<and> cleanedInput s' = cleanedInput s @ [dquote, dquote]"
proof -
  have next_pos: "size_t (Suc (position s)) = Suc (position s)"
    using inside size by (intro size_t_small) simp
  have scan: "scanString (input s) (Suc (position s)) False [] = (position s + 2, [])"
    using inside closing by (subst scanString.simps) simp
  from inside have "position s < length (input s)" by simp
  from loop_body_at_quote [OF this quote outside] show ?thesis
    by (simp add: next_pos scan)
qed

theorem empty_string_literal_frame_witness:
  "\<exists>s'. loop_body at_cpp
          \<lparr>input = [CHR ''x'', CHR '' '', dquote, dquote], position = 2, cleanedInput = ''x'',
           tokens = [Token IDENTIFIER ''x''], inMultiLineComment = False\<rparr> = Inr s'
        \<and> tokens s' = [Token IDENTIFIER ''x'']
        \<and> cleanedInput s' = [CHR ''x'', dquote, dquote]"
  using empty_string_literal_frame
    [of "\<lparr>input = [CHR ''x'', CHR '' '', dquote, dquote], position = 2,
      cleanedInput = ''x'', tokens = [Token IDENTIFIER ''x''], inMultiLineComment = False\<rparr>"]
  by simp

text \<open>
  C10. The lexeme of an emitted string literal never contains a backslash: an iteration
  that starts on a double quote outside a comment appends at most one token, a literal
  without a backslash, and appends that same text in quotes, so without a backslash, to
  the cleaned text.
\<close>

theorem string_literal_drops_backslashes:
  assumes inside: "position s < length (input s)"
    and quote: "input s ! position s = dquote"
    and outside: "\<not> inMultiLineComment s"
  shows "\<exists>s' lit. loop_body at_cpp s = Inr s'
           \<and> backslash \<notin> set lit
           \<and> tokens s' = tokens s @ (if lit = [] then [] else [Token LITERAL lit])
           \<and> cleanedInput s' = cleanedInput s @ dquote # lit @ [dquote]"
proof -
  obtain p lit where scan: "scanString (input s) (size_t (position s + 1)) False [] = (p, lit)"
    by (cases "scanString (input s) (size_t (position s + 1)) False []")
  have "backslash \<notin> set lit"
    using scanString_no_backslash [of "[]" "input s" "size_t (position s + 1)" False] scan
    by simp
  with loop_body_at_quote [OF inside quote outside, of at_cpp] scan show ?thesis
    by simp
qed

text \<open>
  The example of the claim: quote, \<^verbatim>\<open>a\<close>, backslash, quote, \<^verbatim>\<open>b\<close>, quote yields the single
  literal \<^verbatim>\<open>a"b\<close>.
\<close>

theorem string_literal_drops_backslashes_witness:
  "(\<exists>s' lit. loop_body at_cpp
        (LexicalAnalyzer [dquote, CHR ''a'', backslash, dquote, CHR ''b'', dquote]) = Inr s'
      \<and> backslash \<notin> set lit
      \<and> tokens s' = (if lit = [] then [] else [Token LITERAL lit])
      \<and> cleanedInput s' = dquote # lit @ [dquote])
   \<and> tokenize at_cpp [dquote, CHR ''a'', backslash, dquote, CHR ''b'', dquote] =
       Some (Inr ([Token LITERAL [CHR ''a'', dquote, CHR ''b'']],
                  [dquote, CHR ''a'', dquote, CHR ''b'', dquote]))"
proof (rule conjI)
  show "\<exists>s' lit. loop_body at_cpp
        (LexicalAnalyzer [dquote, CHR ''a'', backslash, dquote, CHR ''b'', dquote]) = Inr s'
      \<and> backslash \<notin> set lit
      \<and> tokens s' = (if lit = [] then [] else [Token LITERAL lit])
      \<and> cleanedInput s' = dquote # lit @ [dquote]"
    using string_literal_drops_backslashes
      [of "LexicalAnalyzer [dquote, CHR ''a'', backslash, dquote, CHR ''b'', dquote]"]
    by (simp add: LexicalAnalyzer_def)
  show "tokenize at_cpp [dquote, CHR ''a'', backslash, dquote, CHR ''b'', dquote] =
       Some (Inr ([Token LITERAL [CHR ''a'', dquote, CHR ''b'']],
                  [dquote, CHR ''a'', dquote, CHR ''b'', dquote]))"
    by (simp add: run_defs char_defs at_cpp_def)
qed

end
